theory Spec2Isabelle
  imports Main
begin

section \<open>Signature inference for JS library functions (tools/maint/gen\_sig\_info.py)\<close>

text \<open>
  A shallow embedding of the pure parts of \<^verbatim>\<open>gen_sig_info.py\<close>: the symbol filter
  (\<^verbatim>\<open>ignore_symbol\<close>), the stub emitter (\<^verbatim>\<open>create_c_file\<close>), the reconciler
  (\<^verbatim>\<open>valuetype_to_chr\<close>, \<^verbatim>\<open>functype_to_str\<close>), the merge loop at the end of
  \<^verbatim>\<open>extract_sig_info\<close> and the two line-oriented passes over the JS sources
  (\<^verbatim>\<open>update_sigs\<close>, \<^verbatim>\<open>remove_sigs\<close>).

  Python exceptions are values of the type \<open>error\<close>; a function that can raise returns
  \<open>error + 'a\<close> with \<open>Inl\<close> for the exception.
\<close>

datatype error = AssertionError | KeyError | IndexError | FileNotFoundError

subsection \<open>Value types and function types\<close>

text \<open>
  Modelled from the spec: \<^verbatim>\<open>webassembly.Type\<close> is declared in tools/webassembly.py, which
  is not among the sources. The spec's data model gives the four value types a binary
  artifact can carry: 32-bit integer, 64-bit integer, 32-bit float, 64-bit float.
\<close>

datatype Type = I32 | I64 | F32 | F64

text \<open>
  Modelled from the spec: a FunctionType (the elements of \<^verbatim>\<open>mod.get_types()\<close>) is an
  ordered sequence of parameter value types and a sequence of return value types; the
  source reads the two fields \<^verbatim>\<open>params\<close> and \<^verbatim>\<open>returns\<close>.
\<close>

record FuncType =
  params :: "Type list"
  returns :: "Type list"

subsection \<open>The reconciler\<close>

text \<open>The dictionary literal of \<^verbatim>\<open>valuetype_to_chr\<close>, in its written order.\<close>

definition valuetype_table :: "(Type \<times> char) list" where
  "valuetype_table = [(I32, CHR ''i''), (I64, CHR ''j''), (F32, CHR ''f''), (F64, CHR ''d'')]"

text \<open>
  \<^verbatim>\<open>valuetype_to_chr(t, t64)\<close>: the pointer pattern first, then the assertion
  \<^verbatim>\<open>t == t64\<close>, then the dictionary lookup (a missing key would raise KeyError).
\<close>

definition valuetype_to_chr :: "Type \<Rightarrow> Type \<Rightarrow> error + char" where
  "valuetype_to_chr t t64 =
     (if t = I32 \<and> t64 = I64 then Inr (CHR ''p'')
      else if t = t64 then
        (case map_of valuetype_table t of
           None \<Rightarrow> Inl KeyError
         | Some c \<Rightarrow> Inr c)
      else Inl AssertionError)"

text \<open>
  The loop \<^verbatim>\<open>for p, p64 in zip(t.params, t64.params): rtn += valuetype_to_chr(p, p64)\<close>,
  with \<open>rtn\<close> as the accumulator; the first failing slot aborts the loop.
\<close>

fun append_param_tags :: "string \<Rightarrow> (Type \<times> Type) list \<Rightarrow> error + string" where
  "append_param_tags rtn [] = Inr rtn"
| "append_param_tags rtn ((p, p64) # ps) =
     (case valuetype_to_chr p p64 of
        Inl e \<Rightarrow> Inl e
      | Inr c \<Rightarrow> append_param_tags (rtn @ [c]) ps)"

text \<open>
  The return tag: \<^verbatim>\<open>if t.returns: assert len(t.returns) == 1; rtn = valuetype_to_chr(
  t.returns[0], t64.returns[0]) else: rtn = 'v'\<close>. Indexing an empty list raises IndexError.
\<close>

definition return_tag :: "Type list \<Rightarrow> Type list \<Rightarrow> error + string" where
  "return_tag rs rs64 =
     (case rs of
        [] \<Rightarrow> Inr ''v''
      | r # rest \<Rightarrow>
          if rest = [] then
            (case rs64 of
               [] \<Rightarrow> Inl IndexError
             | r64 # _ \<Rightarrow>
                 (case valuetype_to_chr r r64 of
                    Inl e \<Rightarrow> Inl e
                  | Inr c \<Rightarrow> Inr [c]))
          else Inl AssertionError)"

definition functype_to_str :: "FuncType \<Rightarrow> FuncType \<Rightarrow> error + string" where
  "functype_to_str t t64 =
     (if length (returns t) = length (returns t64) then
        if length (params t) = length (params t64) then
          (case return_tag (returns t) (returns t64) of
             Inl e \<Rightarrow> Inl e
           | Inr rtn \<Rightarrow> append_param_tags rtn (zip (params t) (params t64)))
        else Inl AssertionError
      else Inl AssertionError)"

subsection \<open>Merging one preset into the accumulated mapping\<close>

text \<open>
  A Python \<^verbatim>\<open>dict\<close> keeps its keys in insertion order, and \<^verbatim>\<open>update_sigs\<close> iterates over
  \<^verbatim>\<open>sig_info.items()\<close>, so the mapping is an association list. \<^verbatim>\<open>d[k] = v\<close> overwrites
  the value of a present key in place and appends an absent key at the end.
\<close>

type_synonym 'v dict = "(string \<times> 'v) list"

fun dict_set :: "('k \<times> 'v) list \<Rightarrow> 'k \<Rightarrow> 'v \<Rightarrow> ('k \<times> 'v) list" where
  "dict_set [] k v = [(k, v)]"
| "dict_set ((k', v') # d) k v =
     (if k' = k then (k, v) # d else (k', v') # dict_set d k v)"

text \<open>
  The loop at the end of \<^verbatim>\<open>extract_sig_info\<close>, over \<^verbatim>\<open>sig_info32.items()\<close>. The state is
  the accumulated mapping \<open>sig_info\<close> and the lines printed so far; the lines are returned
  also when the loop aborts, since \<^verbatim>\<open>print\<close> runs before the failing assertion.
\<close>

fun merge_sigs ::
  "FuncType dict \<Rightarrow> FuncType dict \<Rightarrow> string dict \<Rightarrow> string list
     \<Rightarrow> string list \<times> (error + string dict)" where
  "merge_sigs [] sig_info64 sig_info out = (out, Inr sig_info)"
| "merge_sigs ((symb, sig32) # rest) sig_info64 sig_info out =
     (case map_of sig_info64 symb of
        None \<Rightarrow> (out, Inl AssertionError)
      | Some sig64 \<Rightarrow>
          (case functype_to_str sig32 sig64 of
             Inl e \<Rightarrow> (out, Inl e)
           | Inr sig_string \<Rightarrow>
               (case map_of sig_info symb of
                  None \<Rightarrow> merge_sigs rest sig_info64 (dict_set sig_info symb sig_string) out
                | Some old \<Rightarrow>
                    if old = sig_string
                    then merge_sigs rest sig_info64 (dict_set sig_info symb sig_string) out
                    else (out @ [symb, sig_string, old], Inl AssertionError))))"

subsection \<open>Strings\<close>

text \<open>
  Text is a list of characters. A \<open>char\<close> stands for a code point below 256; the Python
  predicates below are the standard library's on that range (code points from 256 on are
  outside the model).
\<close>

definition LF :: char where "LF = CHR 0x0A"
definition CR :: char where "CR = CHR 0x0D"
definition QUOTE :: char where "QUOTE = CHR 0x27"

text \<open>\<^verbatim>\<open>s.startswith(p)\<close> and \<^verbatim>\<open>s.endswith(x)\<close>.\<close>

definition startswith :: "string \<Rightarrow> string \<Rightarrow> bool" where
  "startswith s p = (take (length p) s = p)"

definition endswith :: "string \<Rightarrow> string \<Rightarrow> bool" where
  "endswith s x = (length x \<le> length s \<and> drop (length s - length x) s = x)"

text \<open>\<^verbatim>\<open>sub in l\<close>: the substring test.\<close>

fun contains :: "string \<Rightarrow> string \<Rightarrow> bool" where
  "contains [] sub = (sub = [])"
| "contains (c # cs) sub = (if startswith (c # cs) sub then True else contains cs sub)"

text \<open>\<^verbatim>\<open>str.isspace\<close> on one character, and \<^verbatim>\<open>l.strip()\<close>.\<close>

definition py_isspace :: "char \<Rightarrow> bool" where
  "py_isspace c = (c \<in> set [CHR 0x09, CHR 0x0A, CHR 0x0B, CHR 0x0C, CHR 0x0D, CHR 0x1C,
                              CHR 0x1D, CHR 0x1E, CHR 0x1F, CHR 0x20, CHR 0x85, CHR 0xA0])"

definition strip :: "string \<Rightarrow> string" where
  "strip l = rev (dropWhile py_isspace (rev (dropWhile py_isspace l)))"

text \<open>The line boundaries of \<^verbatim>\<open>str.splitlines\<close>; CR LF counts as one boundary.\<close>

definition is_linebreak :: "char \<Rightarrow> bool" where
  "is_linebreak c = (c \<in> set [CHR 0x0A, CHR 0x0B, CHR 0x0C, CHR 0x0D, CHR 0x1C, CHR 0x1D,
                                CHR 0x1E, CHR 0x85])"

fun splitlines_from :: "string \<Rightarrow> string \<Rightarrow> string list" where
  "splitlines_from cur [] = (if cur = [] then [] else [cur])"
| "splitlines_from cur [c] =
     (if is_linebreak c then [cur] else [cur @ [c]])"
| "splitlines_from cur (c # d # cs) =
     (if c = CR \<and> d = LF then cur # splitlines_from [] cs
      else if is_linebreak c then cur # splitlines_from [] (d # cs)
      else splitlines_from (cur @ [c]) (d # cs))"

definition splitlines :: "string \<Rightarrow> string list" where
  "splitlines t = splitlines_from [] t"

text \<open>\<^verbatim>\<open>sep.join(xs)\<close>.\<close>

fun join :: "string \<Rightarrow> string list \<Rightarrow> string" where
  "join sep [] = []"
| "join sep [x] = x"
| "join sep (x # y # ys) = x @ sep @ join sep (y # ys)"

text \<open>
  The class \<^verbatim>\<open>\w\<close> of the module \<^verbatim>\<open>re\<close> for a \<^verbatim>\<open>str\<close> pattern: the alphanumeric
  characters and the underscore.
\<close>

definition is_word :: "char \<Rightarrow> bool" where
  "is_word c =
     (let n = (of_char c :: nat) in
        (48 \<le> n \<and> n \<le> 57) \<or> (65 \<le> n \<and> n \<le> 90) \<or> n = 95 \<or> (97 \<le> n \<and> n \<le> 122)
        \<or> n = 170 \<or> n = 178 \<or> n = 179 \<or> n = 181 \<or> n = 185 \<or> n = 186
        \<or> (188 \<le> n \<and> n \<le> 190) \<or> (192 \<le> n \<and> n \<le> 214) \<or> (216 \<le> n \<and> n \<le> 246)
        \<or> 248 \<le> n)"

subsection \<open>The symbol filter\<close>

definition reserved_names :: "string list" where
  "reserved_names =
     [''__stack_base'', ''__memory_base'', ''__table_base'', ''__global_base'', ''__heap_base'',
      ''__stack_pointer'', ''__stack_high'', ''__stack_low'', ''_load_secondary_module'',
      ''__asyncify_state'', ''__asyncify_data'',
      ''stackSave'', ''stackRestore'', ''stackAlloc'', ''getTempRet0'', ''setTempRet0'']"

definition extension_suffixes :: "string list" where
  "extension_suffixes = [''NV'', ''EXT'', ''WEBGL'', ''ARB'', ''ANGLE'']"

text \<open>
  \<^verbatim>\<open>ignore_symbol(s, cxx)\<close>, rule by rule in the order of the source. In the last line
  Python's \<^verbatim>\<open>and\<close> binds tighter than \<^verbatim>\<open>or\<close>.
\<close>

definition ignore_symbol :: "string \<Rightarrow> bool \<Rightarrow> bool" where
  "ignore_symbol s cxx =
     (if startswith s ''$'' then True
      else if s \<in> set [''SDL_GetKeyState''] then True
      else if startswith s ''emscripten_gl'' \<or> startswith s ''emscripten_alc'' then True
      else if startswith s ''gl'' \<and> list_ex (endswith s) extension_suffixes then True
      else if s \<in> set reserved_names then True
      else (cxx \<and> s = ''__asctime_r'') \<or> startswith s ''__cxa_find_matching_catch'')"

text \<open>The filter of \<^verbatim>\<open>extract_sig_info\<close>: \<^verbatim>\<open>[s for s in symbols if not ignore_symbol(s, cxx)]\<close>.\<close>

definition filter_symbols :: "string list \<Rightarrow> bool \<Rightarrow> string list" where
  "filter_symbols symbols cxx = filter (\<lambda>s. \<not> ignore_symbol s cxx) symbols"

subsection \<open>The stub emitter\<close>

definition wasi_symbols :: "string list" where
  "wasi_symbols =
     [''proc_exit'', ''environ_sizes_get'', ''environ_get'', ''clock_time_get'',
      ''clock_res_get'', ''fd_write'', ''fd_pwrite'', ''fd_read'', ''fd_pread'', ''fd_close'',
      ''fd_seek'', ''fd_sync'', ''fd_fdstat_get'', ''args_get'', ''args_sizes_get'',
      ''random_get'']"

definition footer :: string where
  "footer = ''};'' @ [LF, LF] @ ''int main(int argc, char* argv[]) {'' @ [LF]
            @ ''  return argc + (intptr_t)symbol_list;'' @ [LF] @ ''}'' @ [LF]"

text \<open>The loop of \<^verbatim>\<open>create_c_file\<close>, appending one line per symbol to \<open>source_lines\<close>.\<close>

fun append_symbol_lines :: "string list \<Rightarrow> string list \<Rightarrow> string list" where
  "append_symbol_lines source_lines [] = source_lines"
| "append_symbol_lines source_lines (s # symbol_list) =
     append_symbol_lines
       (source_lines @ [if s \<in> set wasi_symbols then ''  (void*)&__wasi_'' @ s @ '',''
                        else ''  (void*)&'' @ s @ '','']) symbol_list"

definition source_lines_of :: "string list \<Rightarrow> string \<Rightarrow> string list" where
  "source_lines_of symbol_list header =
     append_symbol_lines [header, [LF] @ ''void* symbol_list[] = {''] symbol_list @ [footer]"

text \<open>\<^verbatim>\<open>create_c_file\<close>: the text handed to \<^verbatim>\<open>utils.write_file\<close>.\<close>

definition create_c_file :: "string list \<Rightarrow> string \<Rightarrow> string" where
  "create_c_file symbol_list header = join [LF] (source_lines_of symbol_list header) @ [LF]"

text \<open>
  Modelled from the spec: an import of the binary module (tools/webassembly.py is not among
  the sources) carries the imported name \<^verbatim>\<open>field\<close> and the index \<^verbatim>\<open>type\<close> of its function
  type in the module's type table.
\<close>

record Import =
  field :: string
  type_index :: nat

text \<open>
  \<^verbatim>\<open>extract_sigs(symbols, obj_file)\<close>, given the module's imports and types:
  \<^verbatim>\<open>import_map = {i.field: i for i in imports}\<close>, then
  \<^verbatim>\<open>sig_info[s] = types[import_map[s].type]\<close> for each symbol.
\<close>

fun import_map_of :: "Import dict \<Rightarrow> Import list \<Rightarrow> Import dict" where
  "import_map_of m [] = m"
| "import_map_of m (i # imports) = import_map_of (dict_set m (field i) i) imports"

fun extract_sigs_loop ::
  "FuncType dict \<Rightarrow> Import dict \<Rightarrow> FuncType list \<Rightarrow> string list \<Rightarrow> error + FuncType dict" where
  "extract_sigs_loop sig_info import_map types [] = Inr sig_info"
| "extract_sigs_loop sig_info import_map types (s # symbols) =
     (case map_of import_map s of
        None \<Rightarrow> Inl KeyError
      | Some i \<Rightarrow>
          if type_index i < length types
          then extract_sigs_loop (dict_set sig_info s (types ! type_index i)) import_map types symbols
          else Inl IndexError)"

definition extract_sigs :: "string list \<Rightarrow> Import list \<Rightarrow> FuncType list \<Rightarrow> error + FuncType dict" where
  "extract_sigs symbols imports types =
     extract_sigs_loop [] (import_map_of [] imports) types symbols"

subsection \<open>The line transform of the update pass\<close>

text \<open>
  \<^verbatim>\<open>re.sub(rf"\b{sym}__sig: '.*'", f"{sym}__sig: '{sig}'", l)\<close>. The symbol is pasted into
  the pattern; the model reads it literally, which is how \<^verbatim>\<open>re\<close> reads a name made of
  letters, digits and underscores. The replacement is taken literally too, as \<^verbatim>\<open>re\<close> does
  for a replacement without backslash.

  \<open>sig_pattern_head\<close> is the literal part of the pattern after \<^verbatim>\<open>\b\<close>, up to the opening
  quote.
\<close>

definition sig_pattern_head :: "string \<Rightarrow> string" where
  "sig_pattern_head symb = symb @ ''__sig: '' @ [QUOTE]"

definition sig_replacement :: "string \<Rightarrow> string \<Rightarrow> string" where
  "sig_replacement symb sg = symb @ ''__sig: '' @ [QUOTE] @ sg @ [QUOTE]"

text \<open>
  The tail \<^verbatim>\<open>.*'\<close> of the pattern on the text after the opening quote: \<^verbatim>\<open>.\<close> matches every
  character but LF and \<^verbatim>\<open>*\<close> is greedy, so the match ends at the last quote before the first
  LF. The result is the text after the match, \<open>None\<close> when there is no such quote.
\<close>

definition after_last_quote :: "string \<Rightarrow> string option" where
  "after_last_quote rest =
     (let seg = takeWhile (\<lambda>c. c \<noteq> LF) rest in
      if QUOTE \<in> set seg
      then Some (rev (takeWhile (\<lambda>c. c \<noteq> QUOTE) (rev seg)) @ dropWhile (\<lambda>c. c \<noteq> LF) rest)
      else None)"

text \<open>
  A match of the whole pattern at the start of \<open>l\<close>, where \<open>prev_word\<close> tells whether the
  character before \<open>l\<close> is a word character (false at the start of the line): \<^verbatim>\<open>\b\<close> asks
  for a word boundary, then the head and the greedy tail. The result is the text after the
  match.
\<close>

definition match_here :: "string \<Rightarrow> bool \<Rightarrow> string \<Rightarrow> string option" where
  "match_here symb prev_word l =
     (case l of
        [] \<Rightarrow> None
      | c # cs \<Rightarrow>
          if prev_word = is_word c then None
          else if startswith l (sig_pattern_head symb)
          then after_last_quote (drop (length (sig_pattern_head symb)) l)
          else None)"

lemma takeWhile_neq_shorter:
  "x \<in> set xs \<Longrightarrow> length (takeWhile (\<lambda>c. c \<noteq> x) xs) < length xs"
  by (induction xs) auto

lemma after_last_quote_shorter:
  "after_last_quote r = Some a \<Longrightarrow> length a < length r"
proof -
  assume a: "after_last_quote r = Some a"
  define seg where "seg = takeWhile (\<lambda>c. c \<noteq> LF) r"
  from a have q: "QUOTE \<in> set seg"
    and eq: "a = rev (takeWhile (\<lambda>c. c \<noteq> QUOTE) (rev seg)) @ dropWhile (\<lambda>c. c \<noteq> LF) r"
    by (auto simp: after_last_quote_def seg_def Let_def split: if_splits)
  from q have "QUOTE \<in> set (rev seg)" by simp
  then have "length (takeWhile (\<lambda>c. c \<noteq> QUOTE) (rev seg)) < length (rev seg)"
    by (rule takeWhile_neq_shorter)
  moreover have "length r = length seg + length (dropWhile (\<lambda>c. c \<noteq> LF) r)"
    unfolding seg_def by (metis length_append takeWhile_dropWhile_id)
  ultimately show ?thesis using eq by simp
qed

lemma match_here_shorter:
  "match_here symb prev_word l = Some a \<Longrightarrow> length a < length l"
  by (auto simp: match_here_def split: list.splits if_splits dest!: after_last_quote_shorter)

text \<open>
  \<^verbatim>\<open>re.sub\<close> with this pattern: scan from the left, replace the leftmost match, go on after
  it (the character before is then the closing quote, not a word character).
\<close>

function re_sub_scan :: "string \<Rightarrow> string \<Rightarrow> bool \<Rightarrow> string \<Rightarrow> string" where
  "re_sub_scan symb sg prev_word [] = []"
| "re_sub_scan symb sg prev_word (c # cs) =
     (case match_here symb prev_word (c # cs) of
        Some rest \<Rightarrow> sig_replacement symb sg @ re_sub_scan symb sg False rest
      | None \<Rightarrow> c # re_sub_scan symb sg (is_word c) cs)"
  by pat_completeness auto
termination
  by (relation "measure (\<lambda>(symb, sg, prev_word, l). length l)")
     (auto dest: match_here_shorter)

definition re_sub_sig :: "string \<Rightarrow> string \<Rightarrow> string \<Rightarrow> string" where
  "re_sub_sig symb sg l = re_sub_scan symb sg False l"

text \<open>
  \<^verbatim>\<open>update_line(l)\<close>: the first entry of \<^verbatim>\<open>sig_info.items()\<close> whose \<^verbatim>\<open>{sym}__sig:\<close> starts the
  stripped line decides; without one the line is returned as it is.
\<close>

definition update_line :: "string dict \<Rightarrow> string \<Rightarrow> string" where
  "update_line sig_info l =
     (if contains l ''__sig'' then
        (case find (\<lambda>p. startswith (strip l) (fst p @ ''__sig:'')) sig_info of
           None \<Rightarrow> l
         | Some p \<Rightarrow> re_sub_sig (fst p) (snd p) l)
      else l)"

text \<open>
  What \<^verbatim>\<open>update_sigs\<close> writes back for a file with the text \<open>t\<close>:
  \<^verbatim>\<open>'\n'.join([update_line(l) for l in t.splitlines()]) + '\n'\<close>.
\<close>

definition update_text :: "string dict \<Rightarrow> string \<Rightarrow> string" where
  "update_text sig_info t = join [LF] (map (update_line sig_info) (splitlines t)) @ [LF]"

subsection \<open>The line filter of the remove pass\<close>

definition to_remove :: "string dict \<Rightarrow> string list" where
  "to_remove sig_info = map (\<lambda>p. fst p @ ''__sig:'') sig_info"

definition strip_line :: "string dict \<Rightarrow> string \<Rightarrow> bool" where
  "strip_line sig_info l = list_ex (startswith (strip l)) (to_remove sig_info)"

definition remove_text :: "string dict \<Rightarrow> string \<Rightarrow> string" where
  "remove_text sig_info t =
     join [LF] (filter (\<lambda>l. \<not> strip_line sig_info l) (splitlines t)) @ [LF]"

subsection \<open>The source tree\<close>

text \<open>
  The tree holds regular files: a path is its list of components below the working
  directory, and a file is its text as \<^verbatim>\<open>utils.read_file\<close> returns it. Directories are the
  proper prefixes of the paths; no directory is named like a file the passes look for.
\<close>

type_synonym path = "string list"
type_synonym tree = "(path \<times> string) list"

definition read_file :: "tree \<Rightarrow> path \<Rightarrow> error + string" where
  "read_file fs f = (case map_of fs f of None \<Rightarrow> Inl FileNotFoundError | Some t \<Rightarrow> Inr t)"

definition write_file :: "tree \<Rightarrow> path \<Rightarrow> string \<Rightarrow> tree" where
  "write_file fs f t = dict_set fs f t"

text \<open>
  \<^verbatim>\<open>fnmatch\<close> for a pattern whose only wildcard is \<open>*\<close>, and \<^verbatim>\<open>glob.glob(pattern)\<close> without
  \<^verbatim>\<open>recursive=True\<close>: the path has one component per component of the pattern, each
  matching its own; \<open>**\<close> is then an ordinary \<open>*\<close>, and a name that starts with a dot is
  matched only by a pattern that starts with a dot.
\<close>

fun fnmatch :: "string \<Rightarrow> string \<Rightarrow> bool" where
  "fnmatch [] [] = True"
| "fnmatch (c # cs) [] = False"
| "fnmatch [] (p # ps) = (p = CHR ''*'' \<and> fnmatch [] ps)"
| "fnmatch (c # cs) (p # ps) =
     (if p = CHR ''*'' then fnmatch (c # cs) ps \<or> fnmatch cs (p # ps)
      else p = c \<and> fnmatch cs ps)"

definition glob_component :: "string \<Rightarrow> string \<Rightarrow> bool" where
  "glob_component pat name =
     (fnmatch name pat \<and> (if startswith name ''.'' then startswith pat ''.'' else True))"

definition glob :: "tree \<Rightarrow> string list \<Rightarrow> path list" where
  "glob fs pats = filter (list_all2 glob_component pats) (map fst fs)"

text \<open>
  \<^verbatim>\<open>files = glob.glob('src/*.js') + glob.glob('src/**/*.js')\<close>, the list both passes run
  over. The passes below return the tree after the loop over this list; the progress line
  each pass prints first is left out.
\<close>

definition js_files :: "tree \<Rightarrow> path list" where
  "js_files fs = glob fs [''src'', ''*.js''] @ glob fs [''src'', ''**'', ''*.js'']"

fun update_files :: "string dict \<Rightarrow> tree \<Rightarrow> path list \<Rightarrow> error + tree" where
  "update_files sig_info fs [] = Inr fs"
| "update_files sig_info fs (f # files) =
     (case read_file fs f of
        Inl e \<Rightarrow> Inl e
      | Inr t \<Rightarrow> update_files sig_info (write_file fs f (update_text sig_info t)) files)"

definition update_sigs :: "string dict \<Rightarrow> tree \<Rightarrow> error + tree" where
  "update_sigs sig_info fs = update_files sig_info fs (js_files fs)"

text \<open>\<^verbatim>\<open>os.path.basename(file)\<close> is the last component of the path.\<close>

fun remove_files :: "string dict \<Rightarrow> tree \<Rightarrow> path list \<Rightarrow> error + tree" where
  "remove_files sig_info fs [] = Inr fs"
| "remove_files sig_info fs (f # files) =
     (if last f = ''libsigs.js'' then remove_files sig_info fs files
      else (case read_file fs f of
              Inl e \<Rightarrow> Inl e
            | Inr t \<Rightarrow> remove_files sig_info (write_file fs f (remove_text sig_info t)) files))"

definition remove_sigs :: "string dict \<Rightarrow> tree \<Rightarrow> error + tree" where
  "remove_sigs sig_info fs = remove_files sig_info fs (js_files fs)"

text \<open>
  The mappings the pipeline builds: a symbol is a name of letters, digits and underscores
  (it was compiled as a C identifier), a signature string is made of the tags.
\<close>

definition is_ident_char :: "char \<Rightarrow> bool" where
  "is_ident_char c =
     (c \<in> set ''abcdefghijklmnopqrstuvwxyzABCDEFGHIJKLMNOPQRSTUVWXYZ0123456789_'')"

definition is_symbol_name :: "string \<Rightarrow> bool" where
  "is_symbol_name s = (s \<noteq> [] \<and> list_all is_ident_char s)"

definition is_signature :: "string \<Rightarrow> bool" where
  "is_signature sg = list_all (\<lambda>c. c \<in> set ''vijfdp'') sg"

definition wf_sig_info :: "string dict \<Rightarrow> bool" where
  "wf_sig_info sig_info =
     list_all (\<lambda>p. is_symbol_name (fst p) \<and> is_signature (snd p)) sig_info"

section \<open>Properties of the reconciler\<close>

lemma valuetype_to_chr_cases:
  "valuetype_to_chr I32 I64 = Inr (CHR ''p'')"
  "valuetype_to_chr I32 I32 = Inr (CHR ''i'')"
  "valuetype_to_chr I64 I64 = Inr (CHR ''j'')"
  "valuetype_to_chr F32 F32 = Inr (CHR ''f'')"
  "valuetype_to_chr F64 F64 = Inr (CHR ''d'')"
  by (simp_all add: valuetype_to_chr_def valuetype_table_def)

lemma valuetype_to_chr_no_other_error:
  "valuetype_to_chr t t64 = Inl e \<Longrightarrow> e = AssertionError"
  by (cases t; cases t64) (simp_all add: valuetype_to_chr_def valuetype_table_def)

text \<open>
  C1. The per-slot tag function: the pair (32-bit int, 64-bit int) gives \<open>p\<close>; an equal
  pair gives the fixed tag \<open>i\<close>, \<open>j\<close>, \<open>f\<close> or \<open>d\<close> of its value type; every other
  unequal pair raises the assertion error and returns no tag.
\<close>

theorem valuetype_to_chr_spec:
  "valuetype_to_chr narrow wide =
     (if narrow = I32 \<and> wide = I64 then Inr (CHR ''p'')
      else if narrow = wide then
        Inr (case narrow of I32 \<Rightarrow> CHR ''i'' | I64 \<Rightarrow> CHR ''j''
                          | F32 \<Rightarrow> CHR ''f'' | F64 \<Rightarrow> CHR ''d'')
      else Inl AssertionError)"
  by (cases narrow; cases wide) (simp_all add: valuetype_to_chr_def valuetype_table_def)

lemma append_param_tags_Inr:
  "append_param_tags rtn ps = Inr s \<Longrightarrow>
     \<exists>tags. s = rtn @ tags \<and> length tags = length ps \<and>
       (\<forall>i<length ps. valuetype_to_chr (fst (ps ! i)) (snd (ps ! i)) = Inr (tags ! i))"
proof (induction ps arbitrary: rtn)
  case Nil
  then show ?case by simp
next
  case (Cons a ps)
  obtain p p64 where a: "a = (p, p64)" by (cases a)
  from Cons.prems a obtain c where c: "valuetype_to_chr p p64 = Inr c"
    and rec: "append_param_tags (rtn @ [c]) ps = Inr s"
    by (auto split: sum.splits)
  from Cons.IH[OF rec] obtain tags where t: "s = (rtn @ [c]) @ tags" "length tags = length ps"
    "\<forall>i<length ps. valuetype_to_chr (fst (ps ! i)) (snd (ps ! i)) = Inr (tags ! i)"
    by blast
  have "\<forall>i<length (a # ps). valuetype_to_chr (fst ((a # ps) ! i)) (snd ((a # ps) ! i)) = Inr ((c # tags) ! i)"
  proof (intro allI impI)
    fix i assume "i < length (a # ps)"
    then show "valuetype_to_chr (fst ((a # ps) ! i)) (snd ((a # ps) ! i)) = Inr ((c # tags) ! i)"
      using t(3) c a by (cases i) auto
  qed
  with t show ?case by (intro exI[of _ "c # tags"]) simp
qed

lemma return_tag_Inr:
  "return_tag rs rs64 = Inr rtn \<Longrightarrow>
     \<exists>rt. rtn = [rt] \<and> length rs \<le> 1 \<and> (rs = [] \<longrightarrow> rt = CHR ''v'') \<and>
       (\<forall>r r64. rs = [r] \<and> rs64 = [r64] \<longrightarrow> valuetype_to_chr r r64 = Inr rt)"
  by (auto simp: return_tag_def split: list.splits if_splits sum.splits)

lemma functype_to_str_Inr:
  assumes "functype_to_str t t64 = Inr s"
  shows "\<exists>rt tags. s = rt # tags \<and> length tags = length (params t) \<and>
           (returns t = [] \<longrightarrow> rt = CHR ''v'') \<and>
           (\<forall>r r64. returns t = [r] \<and> returns t64 = [r64] \<longrightarrow> valuetype_to_chr r r64 = Inr rt) \<and>
           (\<forall>i<length (params t). valuetype_to_chr (params t ! i) (params t64 ! i) = Inr (tags ! i))"
proof -
  from assms have lr: "length (returns t) = length (returns t64)"
    and lp: "length (params t) = length (params t64)"
    by (auto simp: functype_to_str_def split: if_splits)
  from assms lr lp obtain rtn where rtn: "return_tag (returns t) (returns t64) = Inr rtn"
    and ap: "append_param_tags rtn (zip (params t) (params t64)) = Inr s"
    by (auto simp: functype_to_str_def split: sum.splits)
  from return_tag_Inr[OF rtn] obtain rt where rt: "rtn = [rt]" "returns t = [] \<longrightarrow> rt = CHR ''v''"
    "\<forall>r r64. returns t = [r] \<and> returns t64 = [r64] \<longrightarrow> valuetype_to_chr r r64 = Inr rt"
    by blast
  from append_param_tags_Inr[OF ap] obtain tags where tg: "s = rtn @ tags"
    "length tags = length (zip (params t) (params t64))"
    "\<forall>i<length (zip (params t) (params t64)).
        valuetype_to_chr (fst (zip (params t) (params t64) ! i)) (snd (zip (params t) (params t64) ! i)) = Inr (tags ! i)"
    by blast
  from tg(3) lp have "\<forall>i<length (params t). valuetype_to_chr (params t ! i) (params t64 ! i) = Inr (tags ! i)"
    by simp
  with rt tg lp show ?thesis by (intro exI[of _ rt] exI[of _ tags]) simp
qed

lemma functype_to_str_example:
  "functype_to_str \<lparr>params = [I32, I32], returns = [I32]\<rparr> \<lparr>params = [I64, I32], returns = [I32]\<rparr> = Inr ''ipi''"
  by (simp add: functype_to_str_def return_tag_def valuetype_to_chr_def valuetype_table_def)

text \<open>
  C3. Whenever reconciliation of a narrow and a wide function type succeeds, the signature
  string is the return tag (\<open>v\<close> when there is no return value, else the tag of the return
  slot) followed by one tag per parameter in declared order, so its length is one more
  than the parameter count; narrow (return I32, parameters I32, I32) with wide (return I32,
  parameters I64, I32) gives \<open>ipi\<close>.
\<close>

theorem functype_to_str_signature:
  "(functype_to_str t t64 = Inr s \<longrightarrow>
      length s = 1 + length (params t) \<and>
      (\<exists>rt tags. s = rt # tags \<and> length tags = length (params t) \<and>
         (returns t = [] \<longrightarrow> rt = CHR ''v'') \<and>
         (\<forall>r r64. returns t = [r] \<and> returns t64 = [r64] \<longrightarrow> valuetype_to_chr r r64 = Inr rt) \<and>
         (\<forall>i<length (params t). valuetype_to_chr (params t ! i) (params t64 ! i) = Inr (tags ! i))))
   \<and> functype_to_str \<lparr>params = [I32, I32], returns = [I32]\<rparr>
                       \<lparr>params = [I64, I32], returns = [I32]\<rparr> = Inr ''ipi''"
proof -
  have "length s = 1 + length (params t)" if a: "functype_to_str t t64 = Inr s"
    using functype_to_str_Inr[OF a] by auto
  then show ?thesis
    using functype_to_str_Inr[of t t64 s] functype_to_str_example by blast
qed

theorem functype_to_str_signature_witness:
  "functype_to_str \<lparr>params = [F64], returns = []\<rparr> \<lparr>params = [F64], returns = []\<rparr> = Inr ''vd''
   \<and> length ''vd'' = 1 + length (params \<lparr>params = [F64], returns = []\<rparr>)"
proof -
  have e: "functype_to_str \<lparr>params = [F64], returns = []\<rparr> \<lparr>params = [F64], returns = []\<rparr> = Inr ''vd''"
    by (simp add: functype_to_str_def return_tag_def valuetype_to_chr_def valuetype_table_def)
  with functype_to_str_signature[of "\<lparr>params = [F64], returns = []\<rparr>" "\<lparr>params = [F64], returns = []\<rparr>" "''vd''"]
  show ?thesis by simp
qed

lemma return_tag_arity:
  "1 < length rs \<Longrightarrow> return_tag rs rs64 = Inl AssertionError"
  by (cases rs) (auto simp: return_tag_def split: list.splits)

lemma functype_to_str_arity_fail:
  "length (params t) \<noteq> length (params t64) \<or> length (returns t) \<noteq> length (returns t64)
      \<or> 1 < length (returns t) \<Longrightarrow> functype_to_str t t64 = Inl AssertionError"
  by (auto simp: functype_to_str_def return_tag_arity)

text \<open>
  C4. Reconciliation raises the assertion error, and gives no signature string, whenever
  the parameter counts differ, the return counts differ, or there is more than one return
  value; it gives a signature string only when both arities agree and the return arity is
  0 or 1.
\<close>

theorem functype_to_str_arity:
  "(length (params t) \<noteq> length (params t64) \<or> length (returns t) \<noteq> length (returns t64)
      \<or> 1 < length (returns t)
      \<longrightarrow> functype_to_str t t64 = Inl AssertionError)
   \<and> (functype_to_str t t64 = Inr s
      \<longrightarrow> length (params t) = length (params t64) \<and> length (returns t) = length (returns t64)
          \<and> length (returns t) \<le> 1)"
proof -
  have "length (params t) = length (params t64) \<and> length (returns t) = length (returns t64)
          \<and> length (returns t) \<le> 1" if a: "functype_to_str t t64 = Inr s"
  proof (rule ccontr)
    assume "\<not> ?thesis"
    then have "length (params t) \<noteq> length (params t64) \<or> length (returns t) \<noteq> length (returns t64)
      \<or> 1 < length (returns t)" by auto
    from functype_to_str_arity_fail[OF this] a show False by simp
  qed
  then show ?thesis using functype_to_str_arity_fail[of t t64] by blast
qed

theorem functype_to_str_arity_witness:
  "functype_to_str \<lparr>params = [I32], returns = []\<rparr> \<lparr>params = [I32, I32], returns = []\<rparr> = Inl AssertionError
   \<and> functype_to_str \<lparr>params = [], returns = [I32, I32]\<rparr> \<lparr>params = [], returns = [I32, I32]\<rparr> = Inl AssertionError
   \<and> length (returns \<lparr>params = [I32], returns = [I32]\<rparr>) \<le> 1"
proof -
  have e: "functype_to_str \<lparr>params = [I32], returns = [I32]\<rparr> \<lparr>params = [I64], returns = [I32]\<rparr> = Inr ''ip''"
    by (simp add: functype_to_str_def return_tag_def valuetype_to_chr_def valuetype_table_def)
  show ?thesis
    using functype_to_str_arity[of "\<lparr>params = [I32], returns = []\<rparr>" "\<lparr>params = [I32, I32], returns = []\<rparr>" "''''"]
      functype_to_str_arity[of "\<lparr>params = [], returns = [I32, I32]\<rparr>" "\<lparr>params = [], returns = [I32, I32]\<rparr>" "''''"]
      functype_to_str_arity[of "\<lparr>params = [I32], returns = [I32]\<rparr>" "\<lparr>params = [I64], returns = [I32]\<rparr>" "''ip''"] e
    by simp
qed

section \<open>Properties of the merge\<close>

lemma map_of_dict_set_same:
  "map_of d k = Some v \<Longrightarrow> dict_set d k v = d"
  by (induction d) (auto split: if_splits)

lemma map_of_dict_set:
  "map_of (dict_set d k v) k' = (if k' = k then Some v else map_of d k')"
  by (induction d) auto

lemma merge_sigs_head_equal:
  assumes "map_of sig_info64 symb = Some sig64"
    and "functype_to_str sig32 sig64 = Inr sig_string"
    and "map_of sig_info symb = Some sig_string"
  shows "merge_sigs ((symb, sig32) # rest) sig_info64 sig_info out
           = merge_sigs rest sig_info64 sig_info out"
  using assms by (simp add: map_of_dict_set_same)

lemma merge_sigs_head_conflict:
  assumes "map_of sig_info64 symb = Some sig64"
    and "functype_to_str sig32 sig64 = Inr sig_string"
    and "map_of sig_info symb = Some old"
    and "old \<noteq> sig_string"
  shows "merge_sigs ((symb, sig32) # rest) sig_info64 sig_info out
           = (out @ [symb, sig_string, old], Inl AssertionError)"
  using assms by simp

lemma merge_sigs_success_keeps:
  "merge_sigs items sig_info64 sig_info out = (out', Inr sig_info') \<Longrightarrow>
     out' = out \<and> (\<forall>k v. map_of sig_info k = Some v \<longrightarrow> map_of sig_info' k = Some v)"
proof (induction items arbitrary: sig_info)
  case Nil
  then show ?case by simp
next
  case (Cons a items)
  obtain symb sig32 where a: "a = (symb, sig32)" by (cases a)
  from Cons.prems a obtain sig64 sig_string where
    s64: "map_of sig_info64 symb = Some sig64" and
    str: "functype_to_str sig32 sig64 = Inr sig_string"
    by (auto split: option.splits sum.splits)
  from Cons.prems a s64 str have
    ok: "map_of sig_info symb = None \<or> map_of sig_info symb = Some sig_string" and
    rec: "merge_sigs items sig_info64 (dict_set sig_info symb sig_string) out = (out', Inr sig_info')"
    by (auto split: option.splits if_splits)
  from Cons.IH[OF rec] have o: "out' = out"
    and keep: "\<forall>k v. map_of (dict_set sig_info symb sig_string) k = Some v \<longrightarrow> map_of sig_info' k = Some v"
    by auto
  have "map_of sig_info' k = Some v" if "map_of sig_info k = Some v" for k v
  proof -
    from that ok have "map_of (dict_set sig_info symb sig_string) k = Some v"
      by (auto simp: map_of_dict_set)
    with keep show ?thesis by blast
  qed
  with o show ?case by blast
qed

lemma merge_sigs_conflict_aborts:
  assumes "(symb, sig32) \<in> set items"
    and "map_of sig_info64 symb = Some sig64"
    and "functype_to_str sig32 sig64 = Inr sig_string"
    and "map_of sig_info symb = Some old"
    and "old \<noteq> sig_string"
  shows "\<exists>out' e. merge_sigs items sig_info64 sig_info out = (out', Inl e)"
proof (rule ccontr)
  assume "\<not> ?thesis"
  then obtain out' m where r: "merge_sigs items sig_info64 sig_info out = (out', Inr m)"
    by (cases "merge_sigs items sig_info64 sig_info out"; cases "snd (merge_sigs items sig_info64 sig_info out)") auto
  from assms(1,4) r show False
  proof (induction items arbitrary: sig_info)
    case Nil
    then show ?case by simp
  next
    case (Cons a items)
    obtain k f where a: "a = (k, f)" by (cases a)
    from Cons.prems(3) a obtain f64 str where
      s64: "map_of sig_info64 k = Some f64" and
      str: "functype_to_str f f64 = Inr str"
      by (auto split: option.splits sum.splits)
    from Cons.prems(3) a s64 str have
      ok: "map_of sig_info k = None \<or> map_of sig_info k = Some str" and
      rec: "merge_sigs items sig_info64 (dict_set sig_info k str) out = (out', Inr m)"
      by (auto split: option.splits if_splits)
    show ?case
    proof (cases "(symb, sig32) = a")
      case True
      with a have "k = symb" "f = sig32" by auto
      with s64 str assms(2,3) have "str = sig_string" by simp
      with ok \<open>k = symb\<close> Cons.prems(2) assms(5) show False by auto
    next
      case False
      with Cons.prems(1) have in_rest: "(symb, sig32) \<in> set items" by auto
      from ok Cons.prems(2) have "map_of (dict_set sig_info k str) symb = Some old"
        by (auto simp: map_of_dict_set)
      from Cons.IH[OF in_rest this rec] show False .
    qed
  qed
qed

lemma functype_to_str_error:
  "functype_to_str t t64 = Inl e \<Longrightarrow> e = AssertionError"
proof -
  assume a: "functype_to_str t t64 = Inl e"
  have ap: "append_param_tags rtn ps = Inl e' \<Longrightarrow> e' = AssertionError" for rtn ps e'
    by (induction ps arbitrary: rtn)
       (auto split: sum.splits dest: valuetype_to_chr_no_other_error)
  have rt: "length rs = length rs64 \<Longrightarrow> return_tag rs rs64 = Inl e' \<Longrightarrow> e' = AssertionError"
    for rs rs64 e'
    by (auto simp: return_tag_def split: list.splits if_splits sum.splits
        dest: valuetype_to_chr_no_other_error)
  from a show ?thesis
    by (auto simp: functype_to_str_def split: if_splits sum.splits dest: ap rt)
qed

lemma merge_sigs_append:
  "merge_sigs (pre @ rest) sig_info64 sig_info out =
     (case merge_sigs pre sig_info64 sig_info out of
        (out', Inl e) \<Rightarrow> (out', Inl e)
      | (out', Inr sig_info') \<Rightarrow> merge_sigs rest sig_info64 sig_info' out')"
  by (induction pre arbitrary: sig_info)
     (auto split: option.splits sum.splits prod.splits)

lemma merge_sigs_error:
  "merge_sigs items sig_info64 sig_info out = (out', Inl e) \<Longrightarrow>
     e = AssertionError \<and> (out' = out \<or> (\<exists>s new old. out' = out @ [s, new, old]))"
  by (induction items arbitrary: sig_info)
     (auto split: option.splits sum.splits if_splits dest: functype_to_str_error)

lemma merge_sigs_conflict_after_prefix:
  assumes pre: "merge_sigs pre sig_info64 sig_info out = (out1, Inr sig_info1)"
    and "map_of sig_info64 symb = Some sig64"
    and "functype_to_str sig32 sig64 = Inr sig_string"
    and old: "map_of sig_info symb = Some old"
    and "old \<noteq> sig_string"
  shows "merge_sigs (pre @ (symb, sig32) # rest) sig_info64 sig_info out
           = (out @ [symb, sig_string, old], Inl AssertionError)"
proof -
  from merge_sigs_success_keeps[OF pre] old
  have "out1 = out" "map_of sig_info1 symb = Some old" by auto
  with assms show ?thesis by (simp add: merge_sigs_append)
qed

lemma merge_sigs_reconciled_abort_prints:
  assumes "\<forall>p\<in>set items. \<exists>f64 str. map_of sig_info64 (fst p) = Some f64
              \<and> functype_to_str (snd p) f64 = Inr str"
    and "merge_sigs items sig_info64 sig_info out = (out', Inl e)"
  shows "\<exists>s f f64 new old. (s, f) \<in> set items \<and> map_of sig_info64 s = Some f64
            \<and> functype_to_str f f64 = Inr new \<and> old \<noteq> new
            \<and> out' = out @ [s, new, old]"
  using assms
proof (induction items arbitrary: sig_info)
  case Nil
  then show ?case by simp
next
  case (Cons a items)
  obtain k f where a: "a = (k, f)" by (cases a)
  from Cons.prems(1) a obtain f64 str where
    s64: "map_of sig_info64 k = Some f64" and str: "functype_to_str f f64 = Inr str"
    by auto
  show ?case
  proof (cases "\<exists>old. map_of sig_info k = Some old \<and> old \<noteq> str")
    case True
    then obtain old where o: "map_of sig_info k = Some old" "old \<noteq> str" by blast
    with Cons.prems(2) a s64 str have "out' = out @ [k, str, old]" by simp
    with a s64 str o show ?thesis by (intro exI[of _ k] exI[of _ f] exI[of _ f64] exI[of _ str] exI[of _ old]) simp
  next
    case False
    with Cons.prems(2) a s64 str
    have rec: "merge_sigs items sig_info64 (dict_set sig_info k str) out = (out', Inl e)"
      by (auto split: option.splits if_splits)
    from Cons.prems(1) have "\<forall>p\<in>set items. \<exists>f64 str. map_of sig_info64 (fst p) = Some f64
              \<and> functype_to_str (snd p) f64 = Inr str" by simp
    from Cons.IH[OF this rec] obtain s f' f64' new old where
      "(s, f') \<in> set items" "map_of sig_info64 s = Some f64'"
      "functype_to_str f' f64' = Inr new" "old \<noteq> new" "out' = out @ [s, new, old]"
      by blast
    then show ?thesis
      by (intro exI[of _ s] exI[of _ f'] exI[of _ f64'] exI[of _ new] exI[of _ old]) simp
  qed
qed

lemma vi_str: "functype_to_str \<lparr>params = [I32], returns = []\<rparr> \<lparr>params = [I32], returns = []\<rparr> = Inr ''vi''"
  by (simp add: functype_to_str_def return_tag_def valuetype_to_chr_def valuetype_table_def)

lemma vj_str: "functype_to_str \<lparr>params = [I64], returns = []\<rparr> \<lparr>params = [I64], returns = []\<rparr> = Inr ''vj''"
  by (simp add: functype_to_str_def return_tag_def valuetype_to_chr_def valuetype_table_def)

text \<open>
  C2. Merging one preset into the accumulated mapping. A symbol already present with an
  equal signature string is accepted: the loop goes on with the mapping unchanged, and a
  merge that succeeds prints nothing and leaves every entry that was present as it was.
  A symbol already present with a different signature string aborts the merge with the
  assertion error, after printing the symbol, the new signature string and the recorded
  one: so it is at the head of the items, and so it is after any items that merge. A merge
  whose items hold such a symbol never succeeds: it ends in the assertion error, having
  printed nothing or the three lines of one conflict; and when every item reconciles, a
  merge that aborts has printed the three lines of a conflicting item.
\<close>

theorem merge_sigs_cross_preset:
  "(map_of sig_info64 symb = Some sig64 \<and> functype_to_str sig32 sig64 = Inr sig_string
      \<and> map_of sig_info symb = Some sig_string
      \<longrightarrow> merge_sigs ((symb, sig32) # rest) sig_info64 sig_info out
            = merge_sigs rest sig_info64 sig_info out)
   \<and> (map_of sig_info64 symb = Some sig64 \<and> functype_to_str sig32 sig64 = Inr sig_string
      \<and> map_of sig_info symb = Some old \<and> old \<noteq> sig_string
      \<longrightarrow> merge_sigs ((symb, sig32) # rest) sig_info64 sig_info out
            = (out @ [symb, sig_string, old], Inl AssertionError))
   \<and> (merge_sigs items sig_info64 sig_info out = (out', Inr sig_info')
      \<longrightarrow> out' = out \<and> (\<forall>k v. map_of sig_info k = Some v \<longrightarrow> map_of sig_info' k = Some v))
   \<and> (merge_sigs pre sig_info64 sig_info out = (out1, Inr sig_info1)
      \<and> map_of sig_info64 symb = Some sig64 \<and> functype_to_str sig32 sig64 = Inr sig_string
      \<and> map_of sig_info symb = Some old \<and> old \<noteq> sig_string
      \<longrightarrow> merge_sigs (pre @ (symb, sig32) # rest) sig_info64 sig_info out
            = (out @ [symb, sig_string, old], Inl AssertionError))
   \<and> ((symb, sig32) \<in> set items \<and> map_of sig_info64 symb = Some sig64
      \<and> functype_to_str sig32 sig64 = Inr sig_string
      \<and> map_of sig_info symb = Some old \<and> old \<noteq> sig_string
      \<longrightarrow> (\<exists>out''. merge_sigs items sig_info64 sig_info out = (out'', Inl AssertionError)
             \<and> (out'' = out \<or> (\<exists>s new old'. out'' = out @ [s, new, old']))))
   \<and> ((\<forall>p\<in>set items. \<exists>f64 str. map_of sig_info64 (fst p) = Some f64
              \<and> functype_to_str (snd p) f64 = Inr str)
      \<and> merge_sigs items sig_info64 sig_info out = (out', Inl e)
      \<longrightarrow> (\<exists>s f f64 new old'. (s, f) \<in> set items \<and> map_of sig_info64 s = Some f64
            \<and> functype_to_str f f64 = Inr new \<and> old' \<noteq> new
            \<and> out' = out @ [s, new, old']))"
proof -
  have c5: "\<exists>out''. merge_sigs items sig_info64 sig_info out = (out'', Inl AssertionError)
             \<and> (out'' = out \<or> (\<exists>s new old'. out'' = out @ [s, new, old']))"
    if "(symb, sig32) \<in> set items" "map_of sig_info64 symb = Some sig64"
      "functype_to_str sig32 sig64 = Inr sig_string"
      "map_of sig_info symb = Some old" "old \<noteq> sig_string"
  proof -
    from merge_sigs_conflict_aborts[OF that, of out]
    obtain out'' e where r: "merge_sigs items sig_info64 sig_info out = (out'', Inl e)" by blast
    from merge_sigs_error[OF r] r show ?thesis by blast
  qed
  show ?thesis
    using merge_sigs_head_equal[of sig_info64 symb sig64 sig32 sig_string sig_info rest out]
      merge_sigs_head_conflict[of sig_info64 symb sig64 sig32 sig_string sig_info old rest out]
      merge_sigs_success_keeps[of items sig_info64 sig_info out out' sig_info']
      merge_sigs_conflict_after_prefix[of pre sig_info64 sig_info out out1 sig_info1 symb sig64
        sig32 sig_string old rest]
      c5
      merge_sigs_reconciled_abort_prints[of items sig_info64 sig_info out out' e]
    by blast
qed

theorem merge_sigs_cross_preset_witness:
  "merge_sigs [(''bar'', \<lparr>params = [I32], returns = []\<rparr>)] [(''bar'', \<lparr>params = [I32], returns = []\<rparr>)]
      [(''bar'', ''vi'')] [] = ([], Inr [(''bar'', ''vi'')])
   \<and> merge_sigs [(''bar'', \<lparr>params = [I64], returns = []\<rparr>)] [(''bar'', \<lparr>params = [I64], returns = []\<rparr>)]
      [(''bar'', ''vi'')] [] = ([''bar'', ''vj'', ''vi''], Inl AssertionError)
   \<and> merge_sigs [(''baz'', \<lparr>params = [I32], returns = []\<rparr>), (''bar'', \<lparr>params = [I64], returns = []\<rparr>)]
      [(''baz'', \<lparr>params = [I32], returns = []\<rparr>), (''bar'', \<lparr>params = [I64], returns = []\<rparr>)]
      [(''bar'', ''vi'')] [] = ([''bar'', ''vj'', ''vi''], Inl AssertionError)"
proof -
  let ?i32 = "\<lparr>params = [I32], returns = []\<rparr>"
  let ?i64 = "\<lparr>params = [I64], returns = []\<rparr>"
  have m: "map_of [(''bar'', ?i32)] ''bar'' = Some ?i32"
    "map_of [(''bar'', ?i64)] ''bar'' = Some ?i64"
    "map_of [(''baz'', ?i32), (''bar'', ?i64)] ''bar'' = Some ?i64"
    "map_of [(''bar'', ''vi'')] ''bar'' = Some ''vi''" "''vi'' \<noteq> ''vj''"
    by simp_all
  have p: "merge_sigs [(''baz'', ?i32)] [(''baz'', ?i32), (''bar'', ?i64)] [(''bar'', ''vi'')] []
             = ([], Inr [(''bar'', ''vi''), (''baz'', ''vi'')])"
    by (simp add: vi_str)
  from merge_sigs_cross_preset[where ?sig_info64.0 = "[(''bar'', ?i32)]" and symb = "''bar''"
      and ?sig64.0 = ?i32 and ?sig32.0 = ?i32 and sig_string = "''vi''"
      and sig_info = "[(''bar'', ''vi'')]" and rest = "[]" and out = "[]"] m vi_str
  have a: "merge_sigs [(''bar'', ?i32)] [(''bar'', ?i32)] [(''bar'', ''vi'')] []
             = merge_sigs [] [(''bar'', ?i32)] [(''bar'', ''vi'')] []"
    by blast
  from merge_sigs_cross_preset[where ?sig_info64.0 = "[(''bar'', ?i64)]" and symb = "''bar''"
      and ?sig64.0 = ?i64 and ?sig32.0 = ?i64 and sig_string = "''vj''"
      and sig_info = "[(''bar'', ''vi'')]" and rest = "[]" and out = "[]" and old = "''vi''"] m vj_str
  have b: "merge_sigs [(''bar'', ?i64)] [(''bar'', ?i64)] [(''bar'', ''vi'')] []
             = ([] @ [''bar'', ''vj'', ''vi''], Inl AssertionError)"
    by blast
  from merge_sigs_cross_preset[where ?sig_info64.0 = "[(''baz'', ?i32), (''bar'', ?i64)]"
      and symb = "''bar''" and ?sig64.0 = ?i64 and ?sig32.0 = ?i64 and sig_string = "''vj''"
      and sig_info = "[(''bar'', ''vi'')]" and rest = "[]" and out = "[]" and old = "''vi''"
      and pre = "[(''baz'', ?i32)]" and ?out1.0 = "[]"
      and ?sig_info1.0 = "[(''bar'', ''vi''), (''baz'', ''vi'')]"] m vj_str p
  have c: "merge_sigs ([(''baz'', ?i32)] @ (''bar'', ?i64) # []) [(''baz'', ?i32), (''bar'', ?i64)]
             [(''bar'', ''vi'')] [] = ([] @ [''bar'', ''vj'', ''vi''], Inl AssertionError)"
    by blast
  from a b c show ?thesis by simp
qed

section \<open>Properties of the symbol filter\<close>

lemma ignore_symbol_unwinding_prefix:
  "startswith s ''__cxa_find_matching_catch'' \<Longrightarrow> ignore_symbol s cxx"
  by (simp add: ignore_symbol_def)

lemma ignore_symbol_asctime_r:
  "ignore_symbol ''__asctime_r'' cxx = cxx"
  by (simp add: ignore_symbol_def startswith_def endswith_def reserved_names_def
      extension_suffixes_def)

text \<open>
  The name \<open>__cxa_find_matching_catch_2\<close> matches no earlier rule of the filter, and the
  filter drops it with the flag \<open>cxx\<close> false: the prefix rule of the last line does not
  depend on the flag.
\<close>

theorem ignore_symbol_prefix_counterexample:
  "\<not> startswith ''__cxa_find_matching_catch_2'' ''$''
   \<and> ''__cxa_find_matching_catch_2'' \<notin> set [''SDL_GetKeyState'']
   \<and> \<not> startswith ''__cxa_find_matching_catch_2'' ''emscripten_gl''
   \<and> \<not> startswith ''__cxa_find_matching_catch_2'' ''emscripten_alc''
   \<and> \<not> startswith ''__cxa_find_matching_catch_2'' ''gl''
   \<and> ''__cxa_find_matching_catch_2'' \<notin> set reserved_names
   \<and> ignore_symbol ''__cxa_find_matching_catch_2'' False
   \<and> filter_symbols [''__cxa_find_matching_catch_2''] False = []"
  by (simp add: ignore_symbol_def filter_symbols_def startswith_def reserved_names_def)

lemma ignore_symbol_flag_only_asctime:
  "s \<noteq> ''__asctime_r'' \<Longrightarrow> ignore_symbol s cxx = ignore_symbol s False"
  by (simp add: ignore_symbol_def)

text \<open>
  C7 (amended). Only the exception name \<open>__asctime_r\<close> is dropped on account of the flag:
  it is ignored exactly when \<open>cxx\<close> is set, so the filter with the flag false retains it,
  and for every other name the filter gives the same answer with the flag set and unset.
  Every name with the prefix \<open>__cxa_find_matching_catch\<close> is ignored whatever the flag.
\<close>

theorem ignore_symbol_alternate_linkage:
  "ignore_symbol ''__asctime_r'' cxx = cxx
   \<and> filter_symbols [''__asctime_r''] False = [''__asctime_r'']
   \<and> (startswith s ''__cxa_find_matching_catch'' \<longrightarrow> ignore_symbol s cxx)
   \<and> (s \<noteq> ''__asctime_r'' \<longrightarrow> ignore_symbol s cxx = ignore_symbol s False)"
  using ignore_symbol_unwinding_prefix[of s cxx] ignore_symbol_asctime_r[of cxx]
    ignore_symbol_asctime_r[of False] ignore_symbol_flag_only_asctime[of s cxx]
  by (simp add: filter_symbols_def)

theorem ignore_symbol_alternate_linkage_witness:
  "ignore_symbol ''__cxa_find_matching_catch_3'' False
   \<and> ignore_symbol ''__cxa_find_matching_catch_3'' True
   \<and> \<not> ignore_symbol ''__asctime_r'' False
   \<and> ignore_symbol ''__asctime_r'' True
   \<and> ignore_symbol ''malloc'' True = ignore_symbol ''malloc'' False"
  using ignore_symbol_alternate_linkage[of False "''__cxa_find_matching_catch_3''"]
    ignore_symbol_alternate_linkage[of True "''__cxa_find_matching_catch_3''"]
    ignore_symbol_alternate_linkage[of True "''malloc''"]
  by (simp add: startswith_def)

text \<open>
  C8. The filter applied to \<open>__stack_base\<close>, \<open>malloc\<close>, \<open>emscripten_glClear\<close> and
  \<open>glTexImage2DNV\<close> with the flag false retains exactly \<open>malloc\<close>: the first is in the
  reserved-name set, the third has the wrapper prefix \<open>emscripten_gl\<close>, the fourth starts
  with \<open>gl\<close> and ends with the extension suffix \<open>NV\<close>, and \<open>malloc\<close> matches no rule.
\<close>

theorem filter_symbols_example:
  "filter_symbols [''__stack_base'', ''malloc'', ''emscripten_glClear'', ''glTexImage2DNV''] False
     = [''malloc'']
   \<and> ''__stack_base'' \<in> set reserved_names
   \<and> startswith ''emscripten_glClear'' ''emscripten_gl''
   \<and> startswith ''glTexImage2DNV'' ''gl'' \<and> endswith ''glTexImage2DNV'' ''NV''
   \<and> ''NV'' \<in> set extension_suffixes
   \<and> \<not> ignore_symbol ''malloc'' False
   \<and> \<not> startswith ''malloc'' ''$'' \<and> ''malloc'' \<notin> set [''SDL_GetKeyState'']
   \<and> \<not> startswith ''malloc'' ''emscripten_gl'' \<and> \<not> startswith ''malloc'' ''emscripten_alc''
   \<and> \<not> startswith ''malloc'' ''gl'' \<and> ''malloc'' \<notin> set reserved_names
   \<and> \<not> startswith ''malloc'' ''__cxa_find_matching_catch''"
  by (simp add: filter_symbols_def ignore_symbol_def startswith_def endswith_def
      reserved_names_def extension_suffixes_def)

section \<open>Properties of the stub emitter\<close>

lemma append_symbol_lines_map:
  "append_symbol_lines source_lines symbol_list =
     source_lines @ map (\<lambda>s. if s \<in> set wasi_symbols then ''  (void*)&__wasi_'' @ s @ '',''
                              else ''  (void*)&'' @ s @ '','') symbol_list"
  by (induction symbol_list arbitrary: source_lines) simp_all

lemma keys_dict_set: "fst ` set (dict_set d k v) = insert k (fst ` set d)"
proof (induction d)
  case Nil
  then show ?case by simp
next
  case (Cons a d)
  obtain k' v' where a: "a = (k', v')" by (cases a)
  show ?case
  proof (cases "k' = k")
    case True
    with a show ?thesis by simp
  next
    case False
    with a Cons.IH show ?thesis by (simp add: insert_commute)
  qed
qed

lemma extract_sigs_loop_keys:
  "extract_sigs_loop sig_info import_map types symbols = Inr m \<Longrightarrow>
     fst ` set m = fst ` set sig_info \<union> set symbols"
proof (induction symbols arbitrary: sig_info)
  case Nil
  then show ?case by simp
next
  case (Cons s symbols)
  from Cons.prems obtain i where i: "map_of import_map s = Some i" "type_index i < length types"
    and rec: "extract_sigs_loop (dict_set sig_info s (types ! type_index i)) import_map types symbols = Inr m"
    by (auto split: option.splits if_splits)
  from Cons.IH[OF rec] show ?case by (auto simp: keys_dict_set)
qed

lemma extract_sigs_keys:
  "extract_sigs symbols imps types = Inr m \<Longrightarrow> fst ` set m = set symbols"
  unfolding extract_sigs_def by (drule extract_sigs_loop_keys) simp

text \<open>
  C10. The stub emitter writes, between the header with the array declaration and the
  footer, exactly one entry per input symbol, in input order: \<open>(void*)&__wasi_<name>,\<close> for
  a symbol of the WASI set and \<open>(void*)&<name>,\<close> for any other. The keys under which
  \<open>extract_sigs\<close> records the types are the symbols as given, without the prefix.
\<close>

theorem create_c_file_entries:
  "source_lines_of symbol_list header =
     [header, [LF] @ ''void* symbol_list[] = {'']
     @ map (\<lambda>s. if s \<in> set wasi_symbols then ''  (void*)&__wasi_'' @ s @ '',''
                 else ''  (void*)&'' @ s @ '','') symbol_list
     @ [footer]
   \<and> length (source_lines_of symbol_list header) = length symbol_list + 3
   \<and> create_c_file symbol_list header = join [LF] (source_lines_of symbol_list header) @ [LF]
   \<and> (extract_sigs symbol_list imps types = Inr sig_info
        \<longrightarrow> fst ` set sig_info = set symbol_list)"
  using extract_sigs_keys[of symbol_list imps types sig_info]
  by (simp add: source_lines_of_def append_symbol_lines_map create_c_file_def)

theorem create_c_file_entries_witness:
  "source_lines_of [''fd_write'', ''malloc''] ''H'' =
     [''H'', [LF] @ ''void* symbol_list[] = {'', ''  (void*)&__wasi_fd_write,'', ''  (void*)&malloc,'', footer]
   \<and> fst ` set [(''fd_write'', \<lparr>params = [I32], returns = []\<rparr>), (''malloc'', \<lparr>params = [I32], returns = [I32]\<rparr>)]
       = set [''fd_write'', ''malloc'']"
proof -
  have e: "extract_sigs [''fd_write'', ''malloc'']
      [\<lparr>field = ''malloc'', type_index = 1\<rparr>, \<lparr>field = ''fd_write'', type_index = 0\<rparr>]
      [\<lparr>params = [I32], returns = []\<rparr>, \<lparr>params = [I32], returns = [I32]\<rparr>]
     = Inr [(''fd_write'', \<lparr>params = [I32], returns = []\<rparr>), (''malloc'', \<lparr>params = [I32], returns = [I32]\<rparr>)]"
    by (simp add: extract_sigs_def)
  from create_c_file_entries[of "[''fd_write'', ''malloc'']" "''H''"
      "[\<lparr>field = ''malloc'', type_index = 1\<rparr>, \<lparr>field = ''fd_write'', type_index = 0\<rparr>]"
      "[\<lparr>params = [I32], returns = []\<rparr>, \<lparr>params = [I32], returns = [I32]\<rparr>]"
      "[(''fd_write'', \<lparr>params = [I32], returns = []\<rparr>), (''malloc'', \<lparr>params = [I32], returns = [I32]\<rparr>)]"] e
  show ?thesis by (simp add: wasi_symbols_def)
qed

section \<open>The regular expression of the update pass\<close>

lemma startswith_iff: "startswith l p \<longleftrightarrow> (\<exists>r. l = p @ r)"
  unfolding startswith_def
  by (metis append_eq_conv_conj append_take_drop_id)

lemma QUOTE_neq_LF: "QUOTE \<noteq> LF"
  by (simp add: QUOTE_def LF_def)

lemma match_here_SomeD:
  assumes "match_here symb w l = Some a"
  shows "l \<noteq> []" "w \<noteq> is_word (hd l)" "startswith l (sig_pattern_head symb)"
    "after_last_quote (drop (length (sig_pattern_head symb)) l) = Some a"
  using assms by (auto simp: match_here_def split: list.splits if_splits)

lemma match_here_SomeI:
  assumes "l \<noteq> []" "w \<noteq> is_word (hd l)" "startswith l (sig_pattern_head symb)"
    "after_last_quote (drop (length (sig_pattern_head symb)) l) = Some a"
  shows "match_here symb w l = Some a"
  using assms by (cases l) (auto simp: match_here_def)

lemma after_last_quote_no_LF:
  "LF \<notin> set r \<Longrightarrow>
     after_last_quote r =
       (if QUOTE \<in> set r then Some (rev (takeWhile (\<lambda>c. c \<noteq> QUOTE) (rev r))) else None)"
proof -
  assume "LF \<notin> set r"
  then have tw: "takeWhile (\<lambda>c. c \<noteq> LF) r = r" and dw: "dropWhile (\<lambda>c. c \<noteq> LF) r = []"
    by (auto simp: takeWhile_eq_all_conv dropWhile_eq_Nil_conv)
  show ?thesis unfolding after_last_quote_def Let_def tw dw by simp
qed


lemma takeWhile_neq_stop:
  "x \<notin> set xs \<Longrightarrow> takeWhile (\<lambda>c. c \<noteq> x) (xs @ x # ys) = xs"
  by (induction xs) auto

lemma after_last_quote_SomeI:
  assumes "LF \<notin> set mid" "LF \<notin> set a" "QUOTE \<notin> set a"
  shows "after_last_quote (mid @ QUOTE # a) = Some a"
proof -
  from assms have "LF \<notin> set (mid @ QUOTE # a)" using QUOTE_neq_LF by auto
  moreover have "takeWhile (\<lambda>c. c \<noteq> QUOTE) (rev a @ QUOTE # rev mid) = rev a"
    using assms(3) by (intro takeWhile_neq_stop) simp
  ultimately show ?thesis
    by (simp add: after_last_quote_no_LF)
qed


lemma head_has_quote: "QUOTE \<in> set (sig_pattern_head symb)"
  by (simp add: sig_pattern_head_def)

lemma match_here_needs_quote:
  "match_here symb w l = Some a \<Longrightarrow> QUOTE \<in> set l"
  using match_here_SomeD(3)[of symb w l a] head_has_quote[of symb]
  by (auto simp: startswith_iff)

lemma re_sub_scan_no_quote:
  "QUOTE \<notin> set l \<Longrightarrow> re_sub_scan symb sg w l = l"
proof (induction l arbitrary: w)
  case Nil
  then show ?case by simp
next
  case (Cons c cs)
  from Cons.prems have "match_here symb w (c # cs) = None"
    using match_here_needs_quote[of symb w "c # cs"] by (cases "match_here symb w (c # cs)") auto
  with Cons show ?case by simp
qed






lemma re_sub_scan_unfold:
  "l \<noteq> [] \<Longrightarrow>
     re_sub_scan symb sg w l =
       (case match_here symb w l of
          Some rest \<Rightarrow> sig_replacement symb sg @ re_sub_scan symb sg False rest
        | None \<Rightarrow> hd l # re_sub_scan symb sg (is_word (hd l)) (tl l))"
  by (cases l) (auto split: option.splits)




section \<open>The line transform of the update pass is idempotent\<close>

lemma not_ident_chars:
  "\<not> is_ident_char (CHR '':'')" "\<not> is_ident_char QUOTE" "\<not> is_ident_char LF"
  by (simp_all add: is_ident_char_def QUOTE_def LF_def)

lemma py_isspace_not_ident: "py_isspace c \<Longrightarrow> \<not> is_ident_char c"
  unfolding py_isspace_def by (auto simp: is_ident_char_def)

lemma is_linebreak_not_ident: "is_linebreak c \<Longrightarrow> \<not> is_ident_char c"
  unfolding is_linebreak_def by (auto simp: is_ident_char_def)

lemma py_isspace_not_word: "py_isspace c \<Longrightarrow> \<not> is_word c"
  unfolding py_isspace_def by (auto simp: is_word_def)


lemma symbol_prefix_unique:
  assumes "CHR '':'' \<notin> set a" "CHR '':'' \<notin> set b"
    and "startswith x (a @ ''__sig:'')" "startswith x (b @ ''__sig:'')"
  shows "a = b"
proof -
  from assms(3,4) obtain r1 r2 where x: "x = (a @ ''__sig:'') @ r1" "x = (b @ ''__sig:'') @ r2"
    unfolding startswith_iff by blast
  have "takeWhile (\<lambda>c. c \<noteq> CHR '':'') ((a @ ''__sig'') @ CHR '':'' # r1) = a @ ''__sig''"
    using assms(1) by (intro takeWhile_neq_stop) simp
  then have "takeWhile (\<lambda>c. c \<noteq> CHR '':'') ((a @ ''__sig:'') @ r1) = a @ ''__sig''"
    by simp
  moreover have "takeWhile (\<lambda>c. c \<noteq> CHR '':'') ((b @ ''__sig'') @ CHR '':'' # r2) = b @ ''__sig''"
    using assms(2) by (intro takeWhile_neq_stop) simp
  then have "takeWhile (\<lambda>c. c \<noteq> CHR '':'') ((b @ ''__sig:'') @ r2) = b @ ''__sig''"
    by simp
  ultimately have "a @ ''__sig'' = b @ ''__sig''" using x by metis
  then show ?thesis by simp
qed

lemma startswith_strip:
  assumes "q \<noteq> []" "\<not> py_isspace (last q)"
  shows "startswith (strip l) q \<longleftrightarrow> startswith (dropWhile py_isspace l) q"
proof -
  define b where "b = dropWhile py_isspace l"
  define tr where "tr = rev (takeWhile py_isspace (rev b))"
  have s: "strip l = rev (dropWhile py_isspace (rev b))" by (simp add: strip_def b_def)
  have "b = rev (dropWhile py_isspace (rev b)) @ rev (takeWhile py_isspace (rev b))"
    by (metis rev_append rev_rev_ident takeWhile_dropWhile_id)
  then have b: "b = strip l @ tr" by (simp only: s tr_def)
  have tr: "\<forall>c\<in>set tr. py_isspace c" unfolding tr_def by (auto dest: set_takeWhileD)
  show ?thesis unfolding b_def[symmetric]
  proof
    assume "startswith (strip l) q"
    then obtain r where "strip l = q @ r" unfolding startswith_iff by blast
    with b show "startswith b q" unfolding startswith_iff by simp
  next
    assume "startswith b q"
    then obtain r where "b = q @ r" unfolding startswith_iff by blast
    with b have "strip l @ tr = q @ r" by simp
    then obtain us where "(strip l = q @ us \<and> us @ tr = r) \<or> (strip l @ us = q \<and> tr = us @ r)"
      unfolding append_eq_append_conv2 by blast
    then show "startswith (strip l) q"
    proof
      assume "strip l = q @ us \<and> us @ tr = r"
      then show ?thesis unfolding startswith_iff by blast
    next
      assume c: "strip l @ us = q \<and> tr = us @ r"
      show ?thesis
      proof (cases "us = []")
        case True
        with c show ?thesis unfolding startswith_iff by simp
      next
        case False
        with c have "last q = last us" by auto
        moreover from False c have "last us \<in> set tr" by auto
        ultimately show ?thesis using tr assms(2) by auto
      qed
    qed
  qed
qed

lemma re_sub_scan_leading_space:
  assumes "symb \<noteq> []" "\<not> py_isspace (hd symb)" "\<forall>c\<in>set ws. py_isspace c"
  shows "re_sub_scan symb sg False (ws @ body) = ws @ re_sub_scan symb sg False body"
  using assms(3)
proof (induction ws)
  case Nil
  then show ?case by simp
next
  case (Cons c ws)
  then have sp: "py_isspace c" by simp
  have "match_here symb False (c # ws @ body) = None"
  proof (cases "match_here symb False (c # ws @ body)")
    case None
    then show ?thesis .
  next
    case (Some a)
    from match_here_SomeD(3)[OF Some] assms(1) have "c = hd symb"
      by (cases symb) (auto simp: startswith_iff sig_pattern_head_def)
    with sp assms(2) show ?thesis by simp
  qed
  moreover from sp have "is_word c = False" by (simp add: py_isspace_not_word)
  ultimately show ?case using Cons by simp
qed

lemma is_symbol_name_facts:
  assumes "is_symbol_name s"
  shows "s \<noteq> []" "\<not> py_isspace (hd s)" "CHR '':'' \<notin> set s" "QUOTE \<notin> set s" "LF \<notin> set s"
    "\<forall>c\<in>set s. \<not> is_linebreak c"
proof -
  from assms have ne: "s \<noteq> []" and all: "\<forall>c\<in>set s. is_ident_char c"
    by (auto simp: is_symbol_name_def list_all_iff)
  show "s \<noteq> []" by fact
  from ne all have "is_ident_char (hd s)" by simp
  then show "\<not> py_isspace (hd s)" using py_isspace_not_ident by blast
  from all not_ident_chars show "CHR '':'' \<notin> set s" "QUOTE \<notin> set s" "LF \<notin> set s" by blast+
  from all is_linebreak_not_ident show "\<forall>c\<in>set s. \<not> is_linebreak c" by blast
qed

lemma not_space_colon: "\<not> py_isspace (CHR '':'')"
  by (simp add: py_isspace_def)



section \<open>What the line transform replaces\<close>

lemma update_line_example:
  "update_line [(''foo'', ''iij'')] (''  foo__sig: '' @ [QUOTE] @ ''ii'' @ [QUOTE] @ '',  // comment'')
     = ''  foo__sig: '' @ [QUOTE] @ ''iij'' @ [QUOTE] @ '',  // comment''"
  by code_simp

lemma update_line_unmatched:
  "\<forall>p\<in>set sig_info. \<not> startswith (strip l) (fst p @ ''__sig:'') \<Longrightarrow>
     update_line sig_info l = l"
proof -
  assume "\<forall>p\<in>set sig_info. \<not> startswith (strip l) (fst p @ ''__sig:'')"
  then have "find (\<lambda>p. startswith (strip l) (fst p @ ''__sig:'')) sig_info = None"
    by (auto simp: find_None_iff)
  then show ?thesis by (simp add: update_line_def)
qed

lemma is_ident_char_word: "is_ident_char c \<Longrightarrow> is_word c"
  unfolding is_ident_char_def by (auto simp: is_word_def)

lemma contains_append: "contains (a @ sub @ b) sub"
proof (induction a)
  case Nil
  show ?case
  proof (cases "sub @ b")
    case Nil
    then show ?thesis by simp
  next
    case (Cons c cs)
    have "startswith (sub @ b) sub" unfolding startswith_iff by blast
    with Cons show ?thesis by simp
  qed
next
  case (Cons c a)
  then show ?case by simp
qed

lemma find_by_key:
  "\<forall>p\<in>set si. P p \<longleftrightarrow> fst p = k \<Longrightarrow> map_of si k = Some v \<Longrightarrow> find P si = Some (k, v)"
  by (induction si) (auto split: if_splits)

lemma update_line_replaces_signature:
  assumes wf: "wf_sig_info sig_info"
    and m: "map_of sig_info symb = Some sg"
    and ws: "\<forall>c\<in>set ws. py_isspace c"
    and rest: "QUOTE \<notin> set rest" "LF \<notin> set rest"
    and old: "LF \<notin> set old"
  shows "update_line sig_info (ws @ symb @ ''__sig: '' @ [QUOTE] @ old @ [QUOTE] @ rest)
           = ws @ symb @ ''__sig: '' @ [QUOTE] @ sg @ [QUOTE] @ rest"
proof -
  define body where "body = sig_pattern_head symb @ old @ QUOTE # rest"
  define l where "l = ws @ body"
  have l: "ws @ symb @ ''__sig: '' @ [QUOTE] @ old @ [QUOTE] @ rest = l"
    by (simp add: l_def body_def sig_pattern_head_def)
  from m have pin: "(symb, sg) \<in> set sig_info" by (rule map_of_SomeD)
  with wf have sn: "is_symbol_name symb" and ss: "is_signature sg"
    by (auto simp: wf_sig_info_def list_all_iff)
  note sf = is_symbol_name_facts[OF sn]
  have q: "symb @ ''__sig:'' \<noteq> []" "\<not> py_isspace (last (symb @ ''__sig:''))"
    using not_space_colon by simp_all
  have hb: "body \<noteq> []" "hd body = hd symb"
    using sf(1) by (simp_all add: body_def sig_pattern_head_def hd_append)
  with sf(2) have "dropWhile py_isspace body = body" by (cases body) simp_all
  with ws have dw: "dropWhile py_isspace l = body" by (simp add: l_def dropWhile_append)
  have "startswith body (symb @ ''__sig:'')"
    unfolding startswith_iff body_def sig_pattern_head_def by simp
  with dw have P: "startswith (strip l) (symb @ ''__sig:'')"
    unfolding startswith_strip[OF q] by simp
  have "(startswith (strip l) (fst p @ ''__sig:'')) \<longleftrightarrow> fst p = symb" if "p \<in> set sig_info" for p
  proof -
    from wf that have "is_symbol_name (fst p)" by (auto simp: wf_sig_info_def list_all_iff)
    then have "CHR '':'' \<notin> set (fst p)" by (rule is_symbol_name_facts)
    from symbol_prefix_unique[OF this sf(3) _ P] P show ?thesis by auto
  qed
  then have f: "find (\<lambda>p. startswith (strip l) (fst p @ ''__sig:'')) sig_info = Some (symb, sg)"
    by (intro find_by_key[OF _ m]) simp
  have c: "contains l ''__sig''"
    using contains_append[of "ws @ symb" "''__sig''" "'': '' @ [QUOTE] @ old @ QUOTE # rest"]
    by (simp add: l_def body_def sig_pattern_head_def)
  from sn have "is_ident_char (hd symb)"
    by (cases symb) (auto simp: is_symbol_name_def)
  then have "is_word (hd body)" using hb by (simp add: is_ident_char_word)
  then have b: "False \<noteq> is_word (hd body)" by simp
  have sw: "startswith body (sig_pattern_head symb)"
    unfolding startswith_iff body_def by blast
  have "drop (length (sig_pattern_head symb)) body = old @ QUOTE # rest"
    by (simp add: body_def)
  with after_last_quote_SomeI[OF old rest(2,1)]
  have "after_last_quote (drop (length (sig_pattern_head symb)) body) = Some rest" by simp
  from match_here_SomeI[OF hb(1) b sw this]
  have "re_sub_scan symb sg False body = sig_replacement symb sg @ rest"
    using hb(1) by (simp add: re_sub_scan_unfold re_sub_scan_no_quote[OF rest(1)])
  with re_sub_scan_leading_space[OF sf(1,2) ws, of sg body]
  have "re_sub_scan symb sg False l = ws @ sig_replacement symb sg @ rest" by (simp add: l_def)
  with c f have "update_line sig_info l = ws @ sig_replacement symb sg @ rest"
    by (simp add: update_line_def re_sub_sig_def)
  then show ?thesis unfolding l by (simp add: sig_replacement_def)
qed

text \<open>
  C5. The line \<^verbatim>\<open>  foo__sig: 'ii',  // don't touch\<close> under the mapping \<open>foo\<close> to \<open>iij\<close>: the greedy
  \<^verbatim>\<open>.*\<close> of the pattern runs to the last quote of the line, so the comma and the start of the
  comment are replaced together with the signature, and the line becomes
  \<^verbatim>\<open>  foo__sig: 'iij't touch\<close>. The text around the quoted signature is preserved only when
  no quote follows it (\<open>update_line_replaces_signature\<close>).
\<close>

theorem update_line_greedy_quote:
  "update_line [(''foo'', ''iij'')]
     (''  foo__sig: '' @ [QUOTE] @ ''ii'' @ [QUOTE] @ '',  // don'' @ [QUOTE] @ ''t touch'')
     = ''  foo__sig: '' @ [QUOTE] @ ''iij'' @ [QUOTE] @ ''t touch''"
  by code_simp

section \<open>The passes over the text of a file\<close>













section \<open>The passes over the tree\<close>









lemma js_files_depth:
  "p \<in> set (js_files fs) \<Longrightarrow> length p = 2 \<or> length p = 3"
  by (auto simp: js_files_def glob_def dest!: list_all2_lengthD)

text \<open>
  C6. A tree with a JS file directly under \<^verbatim>\<open>src\<close>, one a directory below and one two
  directories below, each holding a stale annotation of \<open>foo\<close>: the file list of both passes
  holds the first two only, so the update and the remove pass leave \<^verbatim>\<open>src/a/b/c.js\<close> as it
  was.
\<close>

theorem update_sigs_skips_nested:
  "js_files
     [([''src'', ''x.js''], ''foo__sig: '' @ [QUOTE] @ ''ii'' @ [QUOTE] @ '','' @ [LF]),
      ([''src'', ''lib'', ''z.js''], ''foo__sig: '' @ [QUOTE] @ ''ii'' @ [QUOTE] @ '','' @ [LF]),
      ([''src'', ''a'', ''b'', ''c.js''], ''foo__sig: '' @ [QUOTE] @ ''ii'' @ [QUOTE] @ '','' @ [LF])]
     = [[''src'', ''x.js''], [''src'', ''lib'', ''z.js'']]
   \<and> update_sigs [(''foo'', ''iij'')]
     [([''src'', ''x.js''], ''foo__sig: '' @ [QUOTE] @ ''ii'' @ [QUOTE] @ '','' @ [LF]),
      ([''src'', ''lib'', ''z.js''], ''foo__sig: '' @ [QUOTE] @ ''ii'' @ [QUOTE] @ '','' @ [LF]),
      ([''src'', ''a'', ''b'', ''c.js''], ''foo__sig: '' @ [QUOTE] @ ''ii'' @ [QUOTE] @ '','' @ [LF])]
     = Inr
     [([''src'', ''x.js''], ''foo__sig: '' @ [QUOTE] @ ''iij'' @ [QUOTE] @ '','' @ [LF]),
      ([''src'', ''lib'', ''z.js''], ''foo__sig: '' @ [QUOTE] @ ''iij'' @ [QUOTE] @ '','' @ [LF]),
      ([''src'', ''a'', ''b'', ''c.js''], ''foo__sig: '' @ [QUOTE] @ ''ii'' @ [QUOTE] @ '','' @ [LF])]
   \<and> remove_sigs [(''foo'', ''iij'')]
     [([''src'', ''x.js''], ''foo__sig: '' @ [QUOTE] @ ''ii'' @ [QUOTE] @ '','' @ [LF]),
      ([''src'', ''lib'', ''z.js''], ''foo__sig: '' @ [QUOTE] @ ''ii'' @ [QUOTE] @ '','' @ [LF]),
      ([''src'', ''a'', ''b'', ''c.js''], ''foo__sig: '' @ [QUOTE] @ ''ii'' @ [QUOTE] @ '','' @ [LF])]
     = Inr
     [([''src'', ''x.js''], [LF]),
      ([''src'', ''lib'', ''z.js''], [LF]),
      ([''src'', ''a'', ''b'', ''c.js''], ''foo__sig: '' @ [QUOTE] @ ''ii'' @ [QUOTE] @ '','' @ [LF])]"
  by code_simp





end
